theory Spec2Isabelle
  imports Main
begin

section \<open>Collaborators of \<^verbatim>\<open>deps/content.js\<close>\<close>

text \<open>
  The module \<^verbatim>\<open>deps/content.js\<close> defines the classes \<^verbatim>\<open>ContentFile\<close> and
  \<^verbatim>\<open>ContentLoader\<close>. Everything it requires (\<^verbatim>\<open>path\<close>, \<^verbatim>\<open>is-dir.js\<close>, \<^verbatim>\<open>is-glob\<close>,
  \<^verbatim>\<open>micromatch\<close>, \<^verbatim>\<open>yaml-prefix.js\<close>, \<^verbatim>\<open>yaml\<close>, \<^verbatim>\<open>fsp.js\<close>) lives outside the file, so the
  model takes these functions as the fields of an environment record. The storage
  is a snapshot: the same path gives the same answer during one run.

  Errors are values. The three errors the module throws itself have a constructor
  each; an error thrown by a collaborator (a rejected read, a parse failure) comes
  as its message and is propagated unchanged, as \<open>External\<close>. A collaborator
  therefore cannot produce one of the module's own three errors.
\<close>

datatype error =
    CantGlobRead          \<comment> \<open>\<^verbatim>\<open>new Error('can\'t glob read()')\<close>\<close>
  | GlobInDirectory       \<comment> \<open>\<^verbatim>\<open>new Error('glob parts unsupported in directory, use shell')\<close>\<close>
  | MatchedMoreThanOne    \<comment> \<open>\<^verbatim>\<open>new Error('somehow matched more than one file')\<close>\<close>
  | External string

text \<open>
  The calls to the storage provider \<^verbatim>\<open>fsp\<close> and to the two parsers are recorded:
  every function of the model returns the list of the calls it made, in order.
  A path argument is a \<open>string option\<close> where the source can pass \<^verbatim>\<open>undefined\<close>
  (\<open>None\<close>).
\<close>

datatype event =
    ReadFile "string option"
  | ReadDir string
  | YamlPrefix string
  | YamlParse string

text \<open>The fields of \<^verbatim>\<open>path.parse(p)\<close> that the constructor reads.\<close>

record ParsedPath =
  parsed_ext :: string
  parsed_dir :: string
  parsed_base :: string

record 'c env =
  isDir :: "string option \<Rightarrow> bool"                \<comment> \<open>\<^verbatim>\<open>require('./is-dir.js')\<close>\<close>
  isGlob :: "string \<Rightarrow> bool"                      \<comment> \<open>\<^verbatim>\<open>require('is-glob')\<close>\<close>
  micromatch_isMatch :: "string \<Rightarrow> string \<Rightarrow> bool" \<comment> \<open>\<^verbatim>\<open>micromatch.isMatch(str, pattern)\<close>\<close>
  micromatch_match :: "string list \<Rightarrow> string \<Rightarrow> string list"
  yamlPrefix :: "string \<Rightarrow> string + (string \<times> 'c option)"
    \<comment> \<open>\<^verbatim>\<open>require('./yaml-prefix.js')\<close>: the pair is \<^verbatim>\<open>(out.rest, out.config)\<close>\<close>
  YAML_parse :: "string \<Rightarrow> string + 'c option"
  fsp_readFile :: "string option \<Rightarrow> string + string"
  fsp_readdir :: "string \<Rightarrow> string + string list"
  path_normalize :: "string \<Rightarrow> string"
  path_dirname :: "string \<Rightarrow> string"
  path_basename :: "string \<Rightarrow> string"
  path_extname :: "string \<Rightarrow> string"
  path_join :: "string \<Rightarrow> string \<Rightarrow> string"
  path_parse :: "string \<Rightarrow> ParsedPath"

section \<open>ContentFile\<close>

text \<open>
  The field \<^verbatim>\<open>content\<close> holds \<^verbatim>\<open>undefined\<close>, \<^verbatim>\<open>null\<close>, a string, or (after a
  \<^verbatim>\<open>read()\<close> that started a file read) the promise that \<^verbatim>\<open>fsp.readFile\<close> returned,
  which the model writes with its outcome.
\<close>

datatype content =
    Undefined
  | Null
  | Str string
  | Promise "string + string"

record 'c ContentFile =
  config :: "'c option"     \<comment> \<open>\<open>None\<close> is \<^verbatim>\<open>null\<close>\<close>
  content :: content
  ext :: string
  dir :: string
  base :: string

definition alwaysReadSource :: "string list" where
  "alwaysReadSource = [''.md'', ''.yaml'', ''.html'']"

text \<open>
  \<^verbatim>\<open>constructor(fullPath, config=null, content=null)\<close>. A default parameter value
  replaces an argument that is left out and also one that is \<^verbatim>\<open>undefined\<close>, so the
  argument \<open>Undefined\<close> becomes \<open>Null\<close>. For \<open>config\<close> the arguments \<^verbatim>\<open>undefined\<close> and
  \<^verbatim>\<open>null\<close> both give \<^verbatim>\<open>null\<close>, which is \<open>None\<close>.
\<close>

definition new_ContentFile :: "'c env \<Rightarrow> string \<Rightarrow> 'c option \<Rightarrow> content \<Rightarrow> 'c ContentFile" where
  "new_ContentFile E fullPath config_arg content_arg =
     (let parsed = path_parse E fullPath in
      \<lparr> config = config_arg,
        content = (if content_arg = Undefined then Null else content_arg),
        ext = parsed_ext parsed,
        dir = parsed_dir parsed,
        base = parsed_base parsed \<rparr>)"

text \<open>
  \<^verbatim>\<open>this.path\<close>, as \<^verbatim>\<open>read()\<close> evaluates it. The constructor assigns \<^verbatim>\<open>config\<close>,
  \<^verbatim>\<open>content\<close>, \<^verbatim>\<open>ext\<close>, \<^verbatim>\<open>dir\<close> and \<^verbatim>\<open>base\<close>; the class has no property or getter
  named \<^verbatim>\<open>path\<close>, so the lookup gives \<^verbatim>\<open>undefined\<close>.
\<close>

definition this_path :: "'c ContentFile \<Rightarrow> string option" where
  "this_path cf = None"

text \<open>What awaiting a value of the field gives: a promise settles to its outcome.\<close>

fun settle :: "content \<Rightarrow> error + content" where
  "settle (Promise (Inl msg)) = Inl (External msg)"
| "settle (Promise (Inr s)) = Inr (Str s)"
| "settle c = Inr c"

text \<open>
  \<^verbatim>\<open>async read()\<close>: the result, the record after the call, and the calls made.
\<close>

definition read :: "'c env \<Rightarrow> 'c ContentFile \<Rightarrow> (error + content) \<times> 'c ContentFile \<times> event list" where
  "read E cf =
     (if content cf = Undefined then
        (if isDir E (this_path cf) = False then
           (let p = Promise (fsp_readFile E (this_path cf)) in
            (settle p, cf\<lparr>content := p\<rparr>, [ReadFile (this_path cf)]))
         else
           (Inr Null, cf\<lparr>content := Null\<rparr>, []))
      else (settle (content cf), cf, []))"

text \<open>\<^verbatim>\<open>static async _buildFromSource(fullPath)\<close>.\<close>

definition buildFromSource :: "'c env \<Rightarrow> string \<Rightarrow> (error + 'c ContentFile) \<times> event list" where
  "buildFromSource E fullPath =
     (let e = path_extname E fullPath in
      if e \<in> set alwaysReadSource then
        (case fsp_readFile E (Some fullPath) of
           Inl msg \<Rightarrow> (Inl (External msg), [ReadFile (Some fullPath)])
         | Inr text \<Rightarrow>
             if e = ''.md'' then
               (case yamlPrefix E text of
                  Inl msg \<Rightarrow> (Inl (External msg), [ReadFile (Some fullPath), YamlPrefix text])
                | Inr (rest, cfg) \<Rightarrow>
                    (Inr (new_ContentFile E fullPath cfg (Str rest)),
                     [ReadFile (Some fullPath), YamlPrefix text]))
             else if e = ''.yaml'' then
               (case YAML_parse E text of
                  Inl msg \<Rightarrow> (Inl (External msg), [ReadFile (Some fullPath), YamlParse text])
                | Inr cfg \<Rightarrow>
                    (Inr (new_ContentFile E fullPath cfg (Str text)),
                     [ReadFile (Some fullPath), YamlParse text]))
             else
               (Inr (new_ContentFile E fullPath None (Str text)), [ReadFile (Some fullPath)]))
      else
        (Inr (new_ContentFile E fullPath None Undefined), []))"

section \<open>ContentLoader\<close>

text \<open>
  A registration \<^verbatim>\<open>{dir, name, gen}\<close> of \<^verbatim>\<open>this._gen\<close>. The generator is an opaque
  value of type \<open>'g\<close>; \<open>None\<close> is \<^verbatim>\<open>undefined\<close>, which \<^verbatim>\<open>register\<close> does not exclude.
\<close>

record 'g registration =
  reg_dir :: string
  reg_name :: string
  reg_gen :: "'g option"

text \<open>A match \<^verbatim>\<open>{name, gen}\<close> returned by \<^verbatim>\<open>_virtual\<close>.\<close>

record 'g vmatch =
  vm_name :: string
  vm_gen :: "'g option"

text \<open>An entry \<^verbatim>\<open>{path, gen, cf}\<close> of \<^verbatim>\<open>this._cache\<close>.\<close>

record ('g, 'c) entry =
  path :: string
  gen :: "'g option"
  cf :: "'c ContentFile"

text \<open>
  \<^verbatim>\<open>this._cache\<close> starts as the plain object \<^verbatim>\<open>{}\<close>. Its own properties are a map
  from paths to entries. A lookup \<^verbatim>\<open>this._cache[k]\<close> that finds no own property goes
  on to \<^verbatim>\<open>Object.prototype\<close>, so for \<open>k\<close> the name of one of its members the lookup
  gives that member (the function \<^verbatim>\<open>Object\<close> for \<^verbatim>\<open>constructor\<close>, the prototype itself
  for \<^verbatim>\<open>__proto__\<close>) and not \<^verbatim>\<open>undefined\<close>. The members are told apart by their names.
\<close>

type_synonym ('g, 'c) cache = "string \<rightharpoonup> ('g, 'c) entry"

definition Object_prototype :: "string list" where
  "Object_prototype =
     [''constructor'', ''__defineGetter__'', ''__defineSetter__'', ''hasOwnProperty'',
      ''__lookupGetter__'', ''__lookupSetter__'', ''isPrototypeOf'', ''propertyIsEnumerable'',
      ''toString'', ''valueOf'', ''__proto__'', ''toLocaleString'']"

text \<open>What a lookup in the cache gives, and so what \<^verbatim>\<open>_outputFor\<close> returns.\<close>

datatype ('g, 'c) cached =
    Entry "('g, 'c) entry"
  | Inherited string

text \<open>\<^verbatim>\<open>this._cache[k]\<close>; \<open>None\<close> is \<^verbatim>\<open>undefined\<close>.\<close>

definition cache_lookup :: "('g, 'c) cache \<Rightarrow> string \<Rightarrow> ('g, 'c) cached option" where
  "cache_lookup c k =
     (case c k of
        Some v \<Rightarrow> Some (Entry v)
      | None \<Rightarrow> if k \<in> set Object_prototype then Some (Inherited k) else None)"

definition register :: "'g registration list \<Rightarrow> string \<Rightarrow> string \<Rightarrow> 'g option \<Rightarrow> 'g registration list" where
  "register gens d n g = gens @ [\<lparr> reg_dir = d, reg_name = n, reg_gen = g \<rparr>]"

text \<open>The function mapped over \<^verbatim>\<open>this._gen\<close> in \<^verbatim>\<open>_virtual\<close>; \<open>None\<close> is \<^verbatim>\<open>null\<close>.\<close>

definition virtual_one :: "'c env \<Rightarrow> string \<Rightarrow> string \<Rightarrow> 'g registration \<Rightarrow> 'g vmatch option" where
  "virtual_one E candidateDir candidateName r =
     (if \<not> micromatch_isMatch E candidateDir (reg_dir r) then None
      else if micromatch_isMatch E candidateName (reg_name r) then
        Some \<lparr> vm_name = candidateName, vm_gen = reg_gen r \<rparr>
      else if \<not> isGlob E (reg_name r) then
        (if candidateName = ''*'' \<or> micromatch_isMatch E (reg_name r) candidateName then
           Some \<lparr> vm_name = reg_name r, vm_gen = reg_gen r \<rparr>
         else None)
      else None)"

text \<open>\<^verbatim>\<open>_virtual(candidateDir, candidateName)\<close>: map, then drop the \<^verbatim>\<open>null\<close>s.\<close>

definition priv_virtual :: "'c env \<Rightarrow> 'g registration list \<Rightarrow> string \<Rightarrow> string \<Rightarrow> 'g vmatch list" where
  "priv_virtual E gens candidateDir candidateName =
     List.map_filter (virtual_one E candidateDir candidateName) gens"

text \<open>
  \<^verbatim>\<open>_outputFor(fullPath, gen)\<close>: the value returned, the cache after the call, the
  calls made. The assignment \<^verbatim>\<open>this._cache[fullPath] = v\<close> is reached only when the
  lookup gave \<^verbatim>\<open>undefined\<close>, so it creates an own property.
\<close>

definition priv_outputFor ::
  "'c env \<Rightarrow> string \<Rightarrow> 'g option \<Rightarrow> ('g, 'c) cache \<Rightarrow>
     (error + ('g, 'c) cached) \<times> ('g, 'c) cache \<times> event list" where
  "priv_outputFor E fullPath g c =
     (case cache_lookup c fullPath of
        Some v \<Rightarrow> (Inr v, c, [])
      | None \<Rightarrow>
          (case g of
             Some h \<Rightarrow>
               (let v = \<lparr> path = fullPath, gen = g, cf = new_ContentFile E fullPath None Undefined \<rparr>
                in (Inr (Entry v), c(fullPath \<mapsto> v), []))
           | None \<Rightarrow>
               (case buildFromSource E fullPath of
                  (Inl err, evs) \<Rightarrow> (Inl err, c, evs)
                | (Inr f, evs) \<Rightarrow>
                    (let v = \<lparr> path = fullPath, gen = None, cf = f \<rparr>
                     in (Inr (Entry v), c(fullPath \<mapsto> v), evs)))))"

text \<open>
  The first \<^verbatim>\<open>for\<close> loop of \<^verbatim>\<open>_contents\<close>, over the matched directory entries. It
  carries \<^verbatim>\<open>pendingDir\<close>, \<^verbatim>\<open>out\<close> and the cache; an error ends it at once.
\<close>

fun scan_real ::
  "'c env \<Rightarrow> bool \<Rightarrow> string \<Rightarrow> string list \<Rightarrow> string list \<Rightarrow> ('g, 'c) cached list \<Rightarrow> ('g, 'c) cache \<Rightarrow>
     (error + (string list \<times> ('g, 'c) cached list)) \<times> ('g, 'c) cache \<times> event list" where
  "scan_real E recurse currentDir [] pendingDir out c = (Inr (pendingDir, out), c, [])"
| "scan_real E recurse currentDir (raw # raws) pendingDir out c =
     (let fullPath = path_join E currentDir raw in
      if isDir E (Some fullPath) then
        scan_real E recurse currentDir raws
          (if recurse then pendingDir @ [fullPath] else pendingDir) out c
      else
        (case priv_outputFor E fullPath None c of
           (Inl err, c', evs) \<Rightarrow> (Inl err, c', evs)
         | (Inr v, c', evs) \<Rightarrow>
             (case scan_real E recurse currentDir raws pendingDir (out @ [v]) c' of
                (r, c'', evs') \<Rightarrow> (r, c'', evs @ evs'))))"

text \<open>The second \<^verbatim>\<open>for\<close> loop of \<^verbatim>\<open>_contents\<close>, over the virtual matches.\<close>

fun scan_virtual ::
  "'c env \<Rightarrow> string \<Rightarrow> 'g vmatch list \<Rightarrow> ('g, 'c) cached list \<Rightarrow> ('g, 'c) cache \<Rightarrow>
     (error + ('g, 'c) cached list) \<times> ('g, 'c) cache \<times> event list" where
  "scan_virtual E currentDir [] out c = (Inr out, c, [])"
| "scan_virtual E currentDir (m # ms) out c =
     (let fullPath = path_join E currentDir (vm_name m) in
      case priv_outputFor E fullPath (vm_gen m) c of
        (Inl err, c', evs) \<Rightarrow> (Inl err, c', evs)
      | (Inr v, c', evs) \<Rightarrow>
          (case scan_virtual E currentDir ms (out @ [v]) c' of
             (r, c'', evs') \<Rightarrow> (r, c'', evs @ evs')))"

text \<open>
  The \<^verbatim>\<open>while (pendingDir.length)\<close> loop of \<^verbatim>\<open>_contents\<close>. A directory tree can be
  endless (a link back to an ancestor), so the loop takes fuel, one unit per
  directory taken off the queue, and \<open>None\<close> says the fuel ran out. The final
  \<^verbatim>\<open>out.filter((x) => x !== null)\<close> keeps every element: neither an entry nor a
  member of \<^verbatim>\<open>Object.prototype\<close> is \<^verbatim>\<open>null\<close>.
\<close>

fun walk ::
  "nat \<Rightarrow> 'c env \<Rightarrow> 'g registration list \<Rightarrow> bool \<Rightarrow> string list \<Rightarrow> string \<Rightarrow>
     ('g, 'c) cached list \<Rightarrow> ('g, 'c) cache \<Rightarrow>
     ((error + ('g, 'c) cached list) \<times> ('g, 'c) cache \<times> event list) option" where
  "walk n E gens recurse [] globName out c = Some (Inr out, c, [])"
| "walk 0 E gens recurse (currentDir # pendingDir) globName out c = None"
| "walk (Suc n) E gens recurse (currentDir # pendingDir) globName out c =
     (case fsp_readdir E currentDir of
        Inl msg \<Rightarrow> Some (Inl (External msg), c, [ReadDir currentDir])
      | Inr dirContent \<Rightarrow>
          (let matchedFiles =
                 (if globName = ''*'' then dirContent else micromatch_match E dirContent globName) in
           case scan_real E recurse currentDir matchedFiles pendingDir out c of
             (Inl err, c1, evs1) \<Rightarrow> Some (Inl err, c1, ReadDir currentDir # evs1)
           | (Inr (pendingDir', out1), c1, evs1) \<Rightarrow>
               (case scan_virtual E currentDir (priv_virtual E gens currentDir globName) out1 c1 of
                  (Inl err, c2, evs2) \<Rightarrow> Some (Inl err, c2, ReadDir currentDir # evs1 @ evs2)
                | (Inr out2, c2, evs2) \<Rightarrow>
                    (case walk n E gens recurse pendingDir' ''*'' out2 c2 of
                       None \<Rightarrow> None
                     | Some (r, c3, evs3) \<Rightarrow>
                         Some (r, c3, ReadDir currentDir # evs1 @ evs2 @ evs3)))))"

text \<open>\<^verbatim>\<open>_contents(rootDir, globName, recurse)\<close>.\<close>

definition priv_contents ::
  "nat \<Rightarrow> 'c env \<Rightarrow> 'g registration list \<Rightarrow> string \<Rightarrow> string \<Rightarrow> bool \<Rightarrow> ('g, 'c) cache \<Rightarrow>
     ((error + ('g, 'c) cached list) \<times> ('g, 'c) cache \<times> event list) option" where
  "priv_contents n E gens rootDir globName recurse c =
     (if \<not> isDir E (Some rootDir) then Some (Inr [], c, [])
      else walk n E gens recurse [rootDir] globName [] c)"

text \<open>\<^verbatim>\<open>contents(req, recurse)\<close>.\<close>

definition contents ::
  "nat \<Rightarrow> 'c env \<Rightarrow> 'g registration list \<Rightarrow> string \<Rightarrow> bool \<Rightarrow> ('g, 'c) cache \<Rightarrow>
     ((error + ('g, 'c) cached list) \<times> ('g, 'c) cache \<times> event list) option" where
  "contents n E gens req0 recurse c =
     (let req = path_normalize E req0 in
      if isDir E (Some req) then priv_contents n E gens req ''*'' recurse c
      else
        (let d = path_dirname E req in
         if isGlob E d then Some (Inl GlobInDirectory, c, [])
         else priv_contents n E gens d (path_basename E req) recurse c))"

text \<open>\<^verbatim>\<open>get(req)\<close>; the result \<open>None\<close> inside \<open>Inr\<close> is \<^verbatim>\<open>null\<close>.\<close>

definition get ::
  "nat \<Rightarrow> 'c env \<Rightarrow> 'g registration list \<Rightarrow> string \<Rightarrow> ('g, 'c) cache \<Rightarrow>
     ((error + ('g, 'c) cached option) \<times> ('g, 'c) cache \<times> event list) option" where
  "get n E gens req c =
     (if isGlob E req then Some (Inl CantGlobRead, c, [])
      else
        (case contents n E gens req False c of
           None \<Rightarrow> None
         | Some (Inl err, c', evs) \<Rightarrow> Some (Inl err, c', evs)
         | Some (Inr out, c', evs) \<Rightarrow>
             if length out > 1 then Some (Inl MatchedMoreThanOne, c', evs)
             else if length out = 0 then Some (Inr None, c', evs)
             else Some (Inr (Some (out ! 0)), c', evs)))"

section \<open>A small site to run the model on\<close>

text \<open>
  The closed theorems below run the model on one fixed environment: a storage with
  the directories \<^verbatim>\<open>site\<close>, \<^verbatim>\<open>site/sub\<close> and \<^verbatim>\<open>a*\<close> (a legal directory name on a
  POSIX file system) and four files, and stand-ins for the library functions that
  agree with the libraries on the inputs used here: paths of plain segments
  joined by single slashes, and patterns whose only special character is the
  star, which matches any run of characters other than the slash. As in
  \<^verbatim>\<open>picomatch\<close>, a string always matches a pattern equal to it. A read of
  \<^verbatim>\<open>undefined\<close> is rejected, and \<^verbatim>\<open>undefined\<close> is no directory.
\<close>

fun glob_match :: "string \<Rightarrow> string \<Rightarrow> bool" where
  "glob_match [] s = (s = [])"
| "glob_match (p # ps) s =
     (if p = CHR ''*'' then
        (glob_match ps s \<or>
         (case s of [] \<Rightarrow> False | c # cs \<Rightarrow> c \<noteq> CHR ''/'' \<and> glob_match (p # ps) cs))
      else (case s of [] \<Rightarrow> False | c # cs \<Rightarrow> c = p \<and> glob_match ps cs))"

definition site_dirs :: "(string \<times> string list) list" where
  "site_dirs = [(''site'', [''index.html'', ''notes.txt'', ''sub'']),
                (''site/sub'', [''post.md'', ''data.yaml'']),
                (''a*'', [])]"

definition site_files :: "(string \<times> string) list" where
  "site_files = [(''site/index.html'', ''<p>hi</p>''),
                 (''site/notes.txt'', ''hello''),
                 (''site/sub/post.md'', ''[title]body''),
                 (''site/sub/data.yaml'', ''k: v'')]"

definition after_last_slash :: "string \<Rightarrow> string" where
  "after_last_slash p = rev (takeWhile (\<lambda>c. c \<noteq> CHR ''/'') (rev p))"

definition before_last_slash :: "string \<Rightarrow> string" where
  "before_last_slash p = rev (drop 1 (dropWhile (\<lambda>c. c \<noteq> CHR ''/'') (rev p)))"

definition suffix_from_last_dot :: "string \<Rightarrow> string" where
  "suffix_from_last_dot b =
     (if CHR ''.'' \<in> set (drop 1 b)
      then CHR ''.'' # rev (takeWhile (\<lambda>c. c \<noteq> CHR ''.'') (rev b)) else [])"

text \<open>
  The front matter of the stand-in Markdown parser is a leading block in square
  brackets; the parsed configuration is the text between them. The stand-in YAML
  parser returns the text with a mark in front.
\<close>

definition site :: "string env" where
  "site =
     \<lparr> isDir = (\<lambda>p. case p of None \<Rightarrow> False | Some q \<Rightarrow> map_of site_dirs q \<noteq> None),
       isGlob = (\<lambda>s. CHR ''*'' \<in> set s),
       micromatch_isMatch = (\<lambda>s pat. s = pat \<or> glob_match pat s),
       micromatch_match = (\<lambda>xs pat. filter (\<lambda>s. s = pat \<or> glob_match pat s) xs),
       yamlPrefix = (\<lambda>t. if take 1 t = ''[''
                          then Inr (drop 1 (dropWhile (\<lambda>c. c \<noteq> CHR '']'') t),
                                    Some (takeWhile (\<lambda>c. c \<noteq> CHR '']'') (drop 1 t)))
                          else Inr (t, None)),
       YAML_parse = (\<lambda>t. Inr (Some (''parsed '' @ t))),
       fsp_readFile = (\<lambda>p. case p of
                             None \<Rightarrow> Inl ''ERR_INVALID_ARG_TYPE''
                           | Some q \<Rightarrow> (case map_of site_files q of
                                          None \<Rightarrow> Inl ''ENOENT''
                                        | Some t \<Rightarrow> Inr t)),
       fsp_readdir = (\<lambda>d. case map_of site_dirs d of
                            None \<Rightarrow> Inl ''ENOENT''
                          | Some xs \<Rightarrow> Inr xs),
       path_normalize = (\<lambda>p. p),
       path_dirname = (\<lambda>p. if CHR ''/'' \<in> set p then before_last_slash p else ''.''),
       path_basename = after_last_slash,
       path_extname = (\<lambda>p. suffix_from_last_dot (after_last_slash p)),
       path_join = (\<lambda>a b. a @ ''/'' @ b),
       path_parse = (\<lambda>p. \<lparr> parsed_ext = suffix_from_last_dot (after_last_slash p),
                            parsed_dir = before_last_slash p,
                            parsed_base = after_last_slash p \<rparr>) \<rparr>"

text \<open>A cache is well formed when every entry is stored under its own path.\<close>

definition cache_ok :: "('g, 'c) cache \<Rightarrow> bool" where
  "cache_ok c = (\<forall>p v. c p = Some v \<longrightarrow> path v = p)"

text \<open>
  The path an element of a result list stands for: the \<^verbatim>\<open>path\<close> field of an entry;
  for a member of \<^verbatim>\<open>Object.prototype\<close> (which has no such field) the name it was
  looked up under.
\<close>

fun resolved_path :: "('g, 'c) cached \<Rightarrow> string" where
  "resolved_path (Entry e) = path e"
| "resolved_path (Inherited k) = k"

text \<open>Every element of a result list is what the cache gives for its path.\<close>

definition held :: "('g, 'c) cache \<Rightarrow> ('g, 'c) cached list \<Rightarrow> bool" where
  "held c out = (\<forall>x \<in> set out. cache_lookup c (resolved_path x) = Some x)"

text \<open>The paths of a returned list, in order; \<open>None\<close> when the call threw or ran out of fuel.\<close>

definition result_paths ::
  "((error + ('g, 'c) cached list) \<times> ('g, 'c) cache \<times> event list) option \<Rightarrow> string list option" where
  "result_paths res =
     (case res of Some (Inr out, c, evs) \<Rightarrow> Some (map resolved_path out) | _ \<Rightarrow> None)"

text \<open>
  The paths that one turn of the loop of \<^verbatim>\<open>_contents\<close> resolves for the directory \<open>d\<close>,
  read off the two \<^verbatim>\<open>for\<close> loops: one for every matched entry that is no directory,
  then one for every virtual match; and the directories the turn puts on the queue
  when \<^verbatim>\<open>recurse\<close> is set.
\<close>

definition real_paths :: "'c env \<Rightarrow> string \<Rightarrow> string list \<Rightarrow> string list" where
  "real_paths E d raws = filter (\<lambda>f. \<not> isDir E (Some f)) (map (path_join E d) raws)"

definition sub_dirs :: "'c env \<Rightarrow> string \<Rightarrow> string list \<Rightarrow> string list" where
  "sub_dirs E d raws = filter (\<lambda>f. isDir E (Some f)) (map (path_join E d) raws)"

definition virtual_paths :: "'c env \<Rightarrow> 'g registration list \<Rightarrow> string \<Rightarrow> string \<Rightarrow> string list" where
  "virtual_paths E gens d g = map (\<lambda>m. path_join E d (vm_name m)) (priv_virtual E gens d g)"

text \<open>
  The paths that the whole walk resolves, in order, with the same fuel as \<open>walk\<close>;
  \<open>None\<close> when the fuel runs out or a directory cannot be listed. Neither the
  cache nor the content of a file enters.
\<close>

fun walk_paths ::
  "nat \<Rightarrow> 'c env \<Rightarrow> 'g registration list \<Rightarrow> bool \<Rightarrow> string list \<Rightarrow> string \<Rightarrow> string list option" where
  "walk_paths n E gens recurse [] globName = Some []"
| "walk_paths 0 E gens recurse (currentDir # pendingDir) globName = None"
| "walk_paths (Suc n) E gens recurse (currentDir # pendingDir) globName =
     (case fsp_readdir E currentDir of
        Inl msg \<Rightarrow> None
      | Inr dirContent \<Rightarrow>
          (let matchedFiles =
                 (if globName = ''*'' then dirContent else micromatch_match E dirContent globName) in
           case walk_paths n E gens recurse
                  (pendingDir @ (if recurse then sub_dirs E currentDir matchedFiles else [])) ''*'' of
             None \<Rightarrow> None
           | Some rest \<Rightarrow>
               Some (real_paths E currentDir matchedFiles @
                     virtual_paths E gens currentDir globName @ rest)))"

text \<open>The paths that a call of \<^verbatim>\<open>contents\<close> which returns a list resolves.\<close>

definition contents_paths ::
  "nat \<Rightarrow> 'c env \<Rightarrow> 'g registration list \<Rightarrow> string \<Rightarrow> bool \<Rightarrow> string list option" where
  "contents_paths n E gens req0 recurse =
     (let req = path_normalize E req0;
          rootDir = (if isDir E (Some req) then req else path_dirname E req);
          globName = (if isDir E (Some req) then ''*'' else path_basename E req)
      in if \<not> isDir E (Some rootDir) then Some []
         else walk_paths n E gens recurse [rootDir] globName)"

text \<open>
  \<^verbatim>\<open>read()\<close> called \<open>k\<close> times in a row on one record: the results, the record after the
  last call, and all the calls made.
\<close>

fun read_times ::
  "nat \<Rightarrow> 'c env \<Rightarrow> 'c ContentFile \<Rightarrow> (error + content) list \<times> 'c ContentFile \<times> event list" where
  "read_times 0 E f = ([], f, [])"
| "read_times (Suc k) E f =
     (case read E f of
        (r, f', evs) \<Rightarrow>
          (case read_times k E f' of (rs, f'', evs') \<Rightarrow> (r # rs, f'', evs @ evs')))"

section \<open>The cache only grows\<close>



lemma cache_lookup_upd_other: "k \<noteq> p \<Longrightarrow> cache_lookup (c(p \<mapsto> v)) k = cache_lookup c k"
  by (simp add: cache_lookup_def)

lemma cache_lookup_upd_same: "cache_lookup (c(p \<mapsto> v)) p = Some (Entry v)"
  by (simp add: cache_lookup_def)

lemma cache_lookup_le_store:
  "cache_lookup c p = None \<Longrightarrow> cache_lookup c \<subseteq>\<^sub>m cache_lookup (c(p \<mapsto> v))"
  unfolding map_le_def by (metis cache_lookup_upd_other domIff)



lemma outputFor_le:
  "priv_outputFor E p g c = (r, c', evs) \<Longrightarrow> cache_lookup c \<subseteq>\<^sub>m cache_lookup c'"
  by (auto simp: priv_outputFor_def Let_def cache_lookup_le_store
      split: option.splits sum.splits prod.splits)

lemma outputFor_stored:
  "priv_outputFor E p g c = (Inr v, c', evs) \<Longrightarrow> cache_lookup c' p = Some v"
  by (auto simp: priv_outputFor_def Let_def cache_lookup_upd_same
      split: option.splits sum.splits prod.splits)

lemma outputFor_ok: "cache_ok c \<Longrightarrow> priv_outputFor E p g c = (r, c', evs) \<Longrightarrow> cache_ok c'"
  by (auto simp: priv_outputFor_def cache_ok_def Let_def split: option.splits sum.splits prod.splits if_splits)

lemma cache_lookup_path: "cache_ok c \<Longrightarrow> cache_lookup c p = Some v \<Longrightarrow> resolved_path v = p"
  by (auto simp: cache_lookup_def cache_ok_def split: option.splits if_splits)

lemma outputFor_path:
  "cache_ok c \<Longrightarrow> priv_outputFor E p g c = (Inr v, c', evs) \<Longrightarrow> resolved_path v = p"
  by (auto simp: priv_outputFor_def Let_def cache_lookup_path
      split: option.splits sum.splits prod.splits)

lemma outputFor_miss_events:
  "priv_outputFor E p g c = (r, c', evs) \<Longrightarrow> evs \<noteq> [] \<Longrightarrow> cache_lookup c p = None"
  by (auto simp: priv_outputFor_def Let_def split: option.splits sum.splits prod.splits if_splits)


lemma held_le: "held c out \<Longrightarrow> cache_lookup c \<subseteq>\<^sub>m cache_lookup c' \<Longrightarrow> held c' out"
  unfolding held_def map_le_def by (metis domI)

lemma held_snoc: "held c out \<Longrightarrow> cache_lookup c (resolved_path v) = Some v \<Longrightarrow> held c (out @ [v])"
  by (simp add: held_def)


lemma scan_real_inv:
  "cache_ok c \<Longrightarrow> held c out \<Longrightarrow> scan_real E recurse d raws pend out c = (r, c', evs) \<Longrightarrow>
     cache_ok c' \<and> (\<forall>pend' out'. r = Inr (pend', out') \<longrightarrow> held c' out')"
proof (induction raws arbitrary: pend out c r c' evs)
  case Nil
  then show ?case by auto
next
  case (Cons raw raws)
  show ?case
  proof (cases "isDir E (Some (path_join E d raw))")
    case True
    with Cons.prems Cons.IH[of c out] show ?thesis by (simp add: Let_def)
  next
    case False
    obtain r1 c1 evs1 where o: "priv_outputFor E (path_join E d raw) None c = (r1, c1, evs1)"
      by (cases "priv_outputFor E (path_join E d raw) None c") auto
    have le1: "cache_lookup c \<subseteq>\<^sub>m cache_lookup c1" using o by (rule outputFor_le)
    have ok1: "cache_ok c1" using Cons.prems(1) o by (rule outputFor_ok)
    show ?thesis
    proof (cases r1)
      case (Inl err)
      with Cons.prems False o ok1 show ?thesis by (auto simp: Let_def)
    next
      case (Inr v)
      obtain r2 c2 evs2 where s: "scan_real E recurse d raws pend (out @ [v]) c1 = (r2, c2, evs2)"
        by (cases "scan_real E recurse d raws pend (out @ [v]) c1") auto
      have pv: "resolved_path v = path_join E d raw"
        using Cons.prems(1) o Inr by (auto dest: outputFor_path)
      have "cache_lookup c1 (resolved_path v) = Some v" using o Inr pv by (auto dest: outputFor_stored)
      then have h1: "held c1 (out @ [v])" using held_le[OF Cons.prems(2) le1] by (rule held_snoc[rotated])
      from Cons.prems False o Inr s have "c' = c2" "r = r2" by (simp_all add: Let_def)
      with Cons.IH[OF ok1 h1 s] show ?thesis by simp
    qed
  qed
qed



lemma scan_virtual_inv:
  "cache_ok c \<Longrightarrow> held c out \<Longrightarrow> scan_virtual E d ms out c = (r, c', evs) \<Longrightarrow>
     cache_ok c' \<and> (\<forall>out'. r = Inr out' \<longrightarrow> held c' out')"
proof (induction ms arbitrary: out c r c' evs)
  case Nil
  then show ?case by auto
next
  case (Cons m ms)
  obtain r1 c1 evs1 where o: "priv_outputFor E (path_join E d (vm_name m)) (vm_gen m) c = (r1, c1, evs1)"
    by (cases "priv_outputFor E (path_join E d (vm_name m)) (vm_gen m) c") auto
  have le1: "cache_lookup c \<subseteq>\<^sub>m cache_lookup c1" using o by (rule outputFor_le)
  have ok1: "cache_ok c1" using Cons.prems(1) o by (rule outputFor_ok)
  show ?case
  proof (cases r1)
    case (Inl err)
    with Cons.prems o ok1 show ?thesis by (auto simp: Let_def)
  next
    case (Inr v)
    obtain r2 c2 evs2 where s: "scan_virtual E d ms (out @ [v]) c1 = (r2, c2, evs2)"
      by (cases "scan_virtual E d ms (out @ [v]) c1") auto
    have pv: "resolved_path v = path_join E d (vm_name m)"
      using Cons.prems(1) o Inr by (auto dest: outputFor_path)
    have "cache_lookup c1 (resolved_path v) = Some v" using o Inr pv by (auto dest: outputFor_stored)
    then have h1: "held c1 (out @ [v])"
      using held_le[OF Cons.prems(2) le1] by (rule held_snoc[rotated])
    from Cons.prems o Inr s have "c' = c2" "r = r2" by (simp_all add: Let_def)
    with Cons.IH[OF ok1 h1 s] show ?thesis by simp
  qed
qed

text \<open>One turn of the while loop, as a case analysis on what the turn did.\<close>

lemma walk_Suc_cases:
  assumes "walk (Suc n) E gens recurse (d # ds) g out c = Some (r, c', evs)"
  obtains (readdir_failed) msg where "fsp_readdir E d = Inl msg" "r = Inl (External msg)" "c' = c"
  | (real_failed) xs err evs1 where "fsp_readdir E d = Inr xs"
      "scan_real E recurse d (if g = ''*'' then xs else micromatch_match E xs g) ds out c = (Inl err, c', evs1)"
      "r = Inl err"
  | (virtual_failed) xs pend1 out1 c1 evs1 err evs2 where "fsp_readdir E d = Inr xs"
      "scan_real E recurse d (if g = ''*'' then xs else micromatch_match E xs g) ds out c = (Inr (pend1, out1), c1, evs1)"
      "scan_virtual E d (priv_virtual E gens d g) out1 c1 = (Inl err, c', evs2)"
      "r = Inl err"
  | (next_turn) xs pend1 out1 c1 evs1 out2 c2 evs2 evs3 where "fsp_readdir E d = Inr xs"
      "scan_real E recurse d (if g = ''*'' then xs else micromatch_match E xs g) ds out c = (Inr (pend1, out1), c1, evs1)"
      "scan_virtual E d (priv_virtual E gens d g) out1 c1 = (Inr out2, c2, evs2)"
      "walk n E gens recurse pend1 ''*'' out2 c2 = Some (r, c', evs3)"
  using assms
  by (auto simp: Let_def split: sum.splits prod.splits option.splits)


lemma walk_inv:
  "cache_ok c \<Longrightarrow> held c out \<Longrightarrow> walk n E gens recurse pend g out c = Some (r, c', evs) \<Longrightarrow>
     cache_ok c' \<and> (\<forall>out'. r = Inr out' \<longrightarrow> held c' out')"
proof (induction n arbitrary: pend g out c evs)
  case 0
  then show ?case by (cases pend) auto
next
  case (Suc n)
  show ?case
  proof (cases pend)
    case Nil
    with Suc.prems show ?thesis by auto
  next
    case (Cons d ds)
    from Suc.prems(3)[unfolded Cons] show ?thesis
    proof (cases rule: walk_Suc_cases)
      case (readdir_failed msg)
      with Suc.prems show ?thesis by simp
    next
      case (real_failed xs err evs1)
      with scan_real_inv[OF Suc.prems(1,2) real_failed(2)] show ?thesis by simp
    next
      case (virtual_failed xs pend1 out1 c1 evs1 err evs2)
      from scan_real_inv[OF Suc.prems(1,2) virtual_failed(2)]
      have "cache_ok c1" "held c1 out1" by simp_all
      from scan_virtual_inv[OF this virtual_failed(3)] virtual_failed(4) show ?thesis by simp
    next
      case (next_turn xs pend1 out1 c1 evs1 out2 c2 evs2 evs3)
      from scan_real_inv[OF Suc.prems(1,2) next_turn(2)]
      have "cache_ok c1" "held c1 out1" by simp_all
      from scan_virtual_inv[OF this next_turn(3)]
      have "cache_ok c2" "held c2 out2" by simp_all
      from Suc.IH[OF this next_turn(4)] show ?thesis .
    qed
  qed
qed

lemma held_Nil: "held c []"
  by (simp add: held_def)


lemma priv_contents_inv:
  "cache_ok c \<Longrightarrow> priv_contents n E gens rootDir g recurse c = Some (r, c', evs) \<Longrightarrow>
     cache_ok c' \<and> (\<forall>out'. r = Inr out' \<longrightarrow> held c' out')"
  using walk_inv[OF _ held_Nil, of c n E gens recurse "[rootDir]" g r c' evs]
  by (auto simp: priv_contents_def held_Nil split: if_splits)


lemma contents_inv:
  "cache_ok c \<Longrightarrow> contents n E gens req recurse c = Some (r, c', evs) \<Longrightarrow>
     cache_ok c' \<and> (\<forall>out'. r = Inr out' \<longrightarrow> held c' out')"
  by (auto simp: contents_def Let_def split: if_splits dest: priv_contents_inv)


section \<open>A call without recursion returns\<close>

text \<open>Without \<^verbatim>\<open>recurse\<close> the first loop never adds to the queue.\<close>

lemma scan_real_no_recurse:
  "scan_real E False d raws pend out c = (Inr (pend', out'), c', evs) \<Longrightarrow> pend' = pend"
proof (induction raws arbitrary: out c evs)
  case Nil
  then show ?case by simp
next
  case (Cons raw raws)
  then show ?case
    by (auto simp: Let_def split: if_splits sum.splits prod.splits)
qed

lemma walk_no_recurse:
  "\<exists>res. walk (Suc n) E gens False [d] g out c = Some res"
proof (cases "fsp_readdir E d")
  case (Inl err)
  then show ?thesis by simp
next
  case (Inr xs)
  let ?m = "if g = ''*'' then xs else micromatch_match E xs g"
  obtain r1 c1 evs1 where s1: "scan_real E False d ?m [] out c = (r1, c1, evs1)"
    by (cases "scan_real E False d ?m [] out c") auto
  show ?thesis
  proof (cases r1)
    case (Inl err)
    with Inr s1 show ?thesis by (simp add: Let_def)
  next
    case r1: (Inr po)
    obtain pend1 out1 where po: "po = (pend1, out1)" by (cases po)
    from s1 r1 po have "pend1 = []" by (auto dest: scan_real_no_recurse)
    obtain r2 c2 evs2 where s2: "scan_virtual E d (priv_virtual E gens d g) out1 c1 = (r2, c2, evs2)"
      by (cases "scan_virtual E d (priv_virtual E gens d g) out1 c1") auto
    show ?thesis
      using Inr s1 r1 po \<open>pend1 = []\<close> s2
      by (cases r2) (simp_all add: Let_def)
  qed
qed

lemma priv_contents_no_recurse:
  "\<exists>res. priv_contents (Suc n) E gens rootDir g False c = Some res"
  using walk_no_recurse[of n E gens rootDir g "[]" c]
  by (simp add: priv_contents_def del: walk.simps)

lemma contents_no_recurse:
  "\<exists>res. contents (Suc n) E gens req False c = Some res"
  using priv_contents_no_recurse[of n E gens _  _ c]
  by (simp add: contents_def Let_def)

lemma get_no_recurse: "\<exists>res. get (Suc n) E gens p c = Some res"
proof -
  obtain r c' evs where "contents (Suc n) E gens p False c = Some (r, c', evs)"
    using contents_no_recurse[of n E gens p c] by auto
  then show ?thesis
    by (cases r) (simp_all add: get_def)
qed

lemma get_of_contents:
  assumes "\<not> isGlob E p" "contents n E gens p False c = Some (Inr out, c', evs)"
  shows "get n E gens p c =
           Some (case out of [] \<Rightarrow> Inr None | [v] \<Rightarrow> Inr (Some v) | _ \<Rightarrow> Inl MatchedMoreThanOne,
                 c', evs)"
proof (cases out)
  case Nil
  with assms show ?thesis by (simp add: get_def)
next
  case (Cons v vs)
  with assms show ?thesis by (cases vs) (simp_all add: get_def)
qed

section \<open>Single-file fetch\<close>

text \<open>
  Claim C7. \<^verbatim>\<open>get(p)\<close> throws the invalid-request error, with the cache untouched and
  no call to storage or parser, when \<open>p\<close> is glob-shaped. Otherwise it returns
  (one unit of fuel is enough, since \<^verbatim>\<open>contents\<close> is called without \<^verbatim>\<open>recurse\<close>), and
  when \<^verbatim>\<open>contents(p)\<close> returns a list the result is \<^verbatim>\<open>null\<close> for the empty list, the
  sole entry for a list of one, and the ambiguous-resolution error for two or more;
  an error of \<^verbatim>\<open>contents(p)\<close> is passed on.
\<close>

theorem get_outcomes:
  "(isGlob E p \<longrightarrow> get n E gens p c = Some (Inl CantGlobRead, c, [])) \<and>
   (\<not> isGlob E p \<longrightarrow>
      (\<exists>res. get (Suc n) E gens p c = Some res) \<and>
      (\<forall>out c' evs. contents n E gens p False c = Some (Inr out, c', evs) \<longrightarrow>
         get n E gens p c =
           Some (case out of [] \<Rightarrow> Inr None | [v] \<Rightarrow> Inr (Some v) | _ \<Rightarrow> Inl MatchedMoreThanOne,
                 c', evs)) \<and>
      (\<forall>err c' evs. contents n E gens p False c = Some (Inl err, c', evs) \<longrightarrow>
         get n E gens p c = Some (Inl err, c', evs)))"
proof -
  have a: "isGlob E p \<Longrightarrow> get n E gens p c = Some (Inl CantGlobRead, c, [])"
    by (simp add: get_def)
  have e: "get n E gens p c = Some (Inl err, c', evs)"
    if "\<not> isGlob E p" "contents n E gens p False c = Some (Inl err, c', evs)" for err c' evs
    using that by (simp add: get_def)
  from a e get_no_recurse[of n E gens p c] get_of_contents[of E p n gens c] show ?thesis by blast
qed

theorem get_outcomes_witness:
  "isGlob site ''site/*.md'' \<and>
   get 1 site ([] :: nat registration list) ''site/*.md'' Map.empty = Some (Inl CantGlobRead, Map.empty, []) \<and>
   \<not> isGlob site ''site/notes.txt'' \<and>
   result_paths (contents 1 site ([] :: nat registration list) ''site/notes.txt'' False Map.empty) =
     Some [''site/notes.txt''] \<and>
   map_option fst (get 1 site ([] :: nat registration list) ''site/notes.txt'' Map.empty) =
     Some (Inr (Some (Entry \<lparr> path = ''site/notes.txt'', gen = None,
        cf = \<lparr> config = None, content = Null, ext = ''.txt'', dir = ''site'', base = ''notes.txt'' \<rparr> \<rparr>))) \<and>
   result_paths (contents 1 site ([] :: nat registration list) ''site/absent.txt'' False Map.empty) = Some [] \<and>
   map_option fst (get 1 site ([] :: nat registration list) ''site/absent.txt'' Map.empty) = Some (Inr None) \<and>
   result_paths (contents 1 site ([] :: nat registration list) ''site/sub'' False Map.empty) =
     Some [''site/sub/post.md'', ''site/sub/data.yaml''] \<and>
   map_option fst (get 1 site ([] :: nat registration list) ''site/sub'' Map.empty) = Some (Inl MatchedMoreThanOne)"
proof -
  let ?v = "Entry \<lparr> path = ''site/notes.txt'', gen = None :: nat option,
        cf = \<lparr> config = None :: string option, content = Null, ext = ''.txt'', dir = ''site'', base = ''notes.txt'' \<rparr> \<rparr>"
  have g: "isGlob site ''site/*.md''" by (simp add: site_def)
  have ng: "\<not> isGlob site ''site/notes.txt''" by (simp add: site_def)
  have "map_option fst (contents 1 site ([] :: nat registration list) ''site/notes.txt'' False Map.empty)
     = Some (Inr [?v])"
    by code_simp
  then obtain c' evs where
    "contents 1 site ([] :: nat registration list) ''site/notes.txt'' False Map.empty = Some (Inr [?v], c', evs)"
    by auto
  with get_outcomes[of site "''site/notes.txt''" 1 "[] :: nat registration list" Map.empty] ng
  have 1: "map_option fst (get 1 site ([] :: nat registration list) ''site/notes.txt'' Map.empty) = Some (Inr (Some ?v))"
    by simp
  from get_outcomes[of site "''site/*.md''" 1 "[] :: nat registration list" Map.empty] g
  have 2: "get 1 site ([] :: nat registration list) ''site/*.md'' Map.empty = Some (Inl CantGlobRead, Map.empty, [])"
    by simp
  have 3: "result_paths (contents 1 site ([] :: nat registration list) ''site/notes.txt'' False Map.empty) =
     Some [''site/notes.txt'']" by code_simp
  have 4: "result_paths (contents 1 site ([] :: nat registration list) ''site/absent.txt'' False Map.empty) = Some []"
    by code_simp
  have 5: "map_option fst (get 1 site ([] :: nat registration list) ''site/absent.txt'' Map.empty) = Some (Inr None)"
    by code_simp
  have 6: "result_paths (contents 1 site ([] :: nat registration list) ''site/sub'' False Map.empty) =
     Some [''site/sub/post.md'', ''site/sub/data.yaml'']" by code_simp
  have 7: "map_option fst (get 1 site ([] :: nat registration list) ''site/sub'' Map.empty) = Some (Inl MatchedMoreThanOne)"
    by code_simp
  from g ng 1 2 3 4 5 6 7 show ?thesis by blast
qed

section \<open>Shape of a request\<close>

text \<open>
  Claim C8. The request is read after normalization, as \<^verbatim>\<open>contents\<close> reads it. When
  it is not an existing directory and its directory part is glob-shaped,
  \<^verbatim>\<open>contents\<close> throws the invalid-request error. When the directory it resolves to
  (not glob-shaped) does not exist, \<^verbatim>\<open>contents\<close> returns the empty list, and so does
  \<^verbatim>\<open>_contents\<close> for any root directory that does not exist; nothing is read, no fuel
  is needed.
\<close>

theorem contents_request_shape:
  "(\<not> isDir E (Some (path_normalize E r)) \<and> isGlob E (path_dirname E (path_normalize E r)) \<longrightarrow>
      contents n E gens r recurse c = Some (Inl GlobInDirectory, c, [])) \<and>
   (\<not> isDir E (Some (path_normalize E r)) \<and> \<not> isGlob E (path_dirname E (path_normalize E r)) \<and>
    \<not> isDir E (Some (path_dirname E (path_normalize E r))) \<longrightarrow>
      contents n E gens r recurse c = Some (Inr [], c, [])) \<and>
   (\<not> isDir E (Some rootDir) \<longrightarrow> priv_contents n E gens rootDir g recurse c = Some (Inr [], c, []))"
  by (simp add: contents_def priv_contents_def Let_def)

theorem contents_request_shape_witness:
  "\<not> isDir site (Some (path_normalize site ''si*/x.md'')) \<and>
   isGlob site (path_dirname site (path_normalize site ''si*/x.md'')) \<and>
   contents 0 site ([] :: nat registration list) ''si*/x.md'' True Map.empty = Some (Inl GlobInDirectory, Map.empty, []) \<and>
   \<not> isDir site (Some (path_normalize site ''nowhere/x.md'')) \<and>
   \<not> isGlob site (path_dirname site (path_normalize site ''nowhere/x.md'')) \<and>
   \<not> isDir site (Some (path_dirname site (path_normalize site ''nowhere/x.md''))) \<and>
   contents 0 site ([] :: nat registration list) ''nowhere/x.md'' True Map.empty = Some (Inr [], Map.empty, []) \<and>
   \<not> isDir site (Some ''nowhere'') \<and>
   priv_contents 0 site ([] :: nat registration list) ''nowhere'' ''*'' True Map.empty = Some (Inr [], Map.empty, [])"
proof -
  have a: "\<not> isDir site (Some (path_normalize site ''si*/x.md''))"
    "isGlob site (path_dirname site (path_normalize site ''si*/x.md''))"
    by (simp_all add: site_def site_dirs_def before_last_slash_def)
  have b: "\<not> isDir site (Some (path_normalize site ''nowhere/x.md''))"
    "\<not> isGlob site (path_dirname site (path_normalize site ''nowhere/x.md''))"
    "\<not> isDir site (Some (path_dirname site (path_normalize site ''nowhere/x.md'')))"
    "\<not> isDir site (Some ''nowhere'')"
    by (simp_all add: site_def site_dirs_def before_last_slash_def)
  from a b
    contents_request_shape[of site "''si*/x.md''" 0 "[] :: nat registration list" True Map.empty "''nowhere''" "''*''"]
    contents_request_shape[of site "''nowhere/x.md''" 0 "[] :: nat registration list" True Map.empty "''nowhere''" "''*''"]
  show ?thesis by blast
qed

section \<open>Errors that come out of a walk\<close>

lemma buildFromSource_error:
  "buildFromSource E p = (Inl err, evs) \<Longrightarrow> \<exists>m. err = External m"
  by (auto simp: buildFromSource_def Let_def split: if_splits sum.splits prod.splits)

lemma outputFor_error:
  "priv_outputFor E p g c = (Inl err, c', evs) \<Longrightarrow> \<exists>m. err = External m"
  by (auto simp: priv_outputFor_def Let_def split: option.splits sum.splits prod.splits
      dest: buildFromSource_error)

lemma scan_real_error:
  "scan_real E recurse d raws pend out c = (Inl err, c', evs) \<Longrightarrow> \<exists>m. err = External m"
proof (induction raws arbitrary: pend out c evs c')
  case Nil
  then show ?case by simp
next
  case (Cons raw raws)
  show ?case
  proof (cases "isDir E (Some (path_join E d raw))")
    case True
    with Cons show ?thesis by (simp add: Let_def)
  next
    case False
    obtain r1 c1 evs1 where o: "priv_outputFor E (path_join E d raw) None c = (r1, c1, evs1)"
      by (cases "priv_outputFor E (path_join E d raw) None c") auto
    show ?thesis
    proof (cases r1)
      case (Inl e1)
      with Cons.prems False o have "err = e1" by (simp add: Let_def)
      with o Inl show ?thesis by (auto dest: outputFor_error)
    next
      case (Inr v)
      obtain r2 c2 evs2 where s: "scan_real E recurse d raws pend (out @ [v]) c1 = (r2, c2, evs2)"
        by (cases "scan_real E recurse d raws pend (out @ [v]) c1") auto
      with Cons.prems False o Inr have "r2 = Inl err" by (simp add: Let_def)
      with s Cons.IH show ?thesis by blast
    qed
  qed
qed

lemma scan_virtual_error:
  "scan_virtual E d ms out c = (Inl err, c', evs) \<Longrightarrow> \<exists>m. err = External m"
proof (induction ms arbitrary: out c evs c')
  case Nil
  then show ?case by simp
next
  case (Cons m ms)
  obtain r1 c1 evs1 where o: "priv_outputFor E (path_join E d (vm_name m)) (vm_gen m) c = (r1, c1, evs1)"
    by (cases "priv_outputFor E (path_join E d (vm_name m)) (vm_gen m) c") auto
  show ?case
  proof (cases r1)
    case (Inl e1)
    with Cons.prems o have "err = e1" by (simp add: Let_def)
    with o Inl show ?thesis by (auto dest: outputFor_error)
  next
    case (Inr v)
    obtain r2 c2 evs2 where s: "scan_virtual E d ms (out @ [v]) c1 = (r2, c2, evs2)"
      by (cases "scan_virtual E d ms (out @ [v]) c1") auto
    with Cons.prems o Inr have "r2 = Inl err" by (simp add: Let_def)
    with s Cons.IH show ?thesis by blast
  qed
qed

lemma walk_error:
  "walk n E gens recurse pend g out c = Some (Inl err, c', evs) \<Longrightarrow> \<exists>m. err = External m"
proof (induction n arbitrary: pend g out c evs)
  case 0
  then show ?case by (cases pend) auto
next
  case (Suc n)
  show ?case
  proof (cases pend)
    case Nil
    with Suc.prems show ?thesis by simp
  next
    case (Cons d ds)
    from Suc.prems[unfolded Cons] show ?thesis
    proof (cases rule: walk_Suc_cases)
      case (readdir_failed msg)
      then show ?thesis by simp
    next
      case (real_failed xs e1 evs1)
      then show ?thesis by (auto dest: scan_real_error)
    next
      case (virtual_failed xs pend1 out1 c1 evs1 e1 evs2)
      then show ?thesis by (auto dest: scan_virtual_error)
    next
      case (next_turn xs pend1 out1 c1 evs1 out2 c2 evs2 evs3)
      from next_turn(4) show ?thesis by (rule Suc.IH)
    qed
  qed
qed

lemma contents_of_directory:
  "isDir E (Some (path_normalize E p)) \<Longrightarrow>
     contents n E gens p recurse c = walk n E gens recurse [path_normalize E p] ''*'' [] c"
  by (simp add: contents_def priv_contents_def Let_def)

section \<open>Single-file fetch of a directory\<close>

text \<open>
  Claim C10 says that \<^verbatim>\<open>get(p)\<close> is not rejected for shape whenever \<open>p\<close> names an
  existing directory. The first statement of \<^verbatim>\<open>get\<close> tests the path itself, before
  any look at the storage: the directory \<^verbatim>\<open>a*\<close> exists and \<^verbatim>\<open>get('a*')\<close> throws the
  invalid-request error.
\<close>

theorem get_directory_glob_named_rejected:
  "isDir site (Some (path_normalize site ''a*'')) \<and>
   get 1 site ([] :: nat registration list) ''a*'' Map.empty = Some (Inl CantGlobRead, Map.empty, [])"
  by (simp add: get_def site_def site_dirs_def)

text \<open>
  Claim C10, amended. For every path \<open>p\<close> that is not glob-shaped and whose normal
  form names an existing directory, \<^verbatim>\<open>get(p)\<close> is the walk of that directory under
  the pattern \<^verbatim>\<open>*\<close> without recursion (its entries, then its virtual matches):
  \<^verbatim>\<open>null\<close> for no entry, the entry for one, the ambiguous-resolution error for two
  or more, and an error of the walk passed on. It returns with one unit of fuel,
  and it throws neither of the two invalid-request errors.
\<close>

theorem get_existing_directory:
  assumes "\<not> isGlob E p" and "isDir E (Some (path_normalize E p))"
  shows "get n E gens p c =
           (case walk n E gens False [path_normalize E p] ''*'' [] c of
              None \<Rightarrow> None
            | Some (Inl err, c', evs) \<Rightarrow> Some (Inl err, c', evs)
            | Some (Inr out, c', evs) \<Rightarrow>
                Some (case out of [] \<Rightarrow> Inr None | [v] \<Rightarrow> Inr (Some v) | _ \<Rightarrow> Inl MatchedMoreThanOne,
                      c', evs)) \<and>
         (\<exists>res. get (Suc n) E gens p c = Some res) \<and>
         (\<forall>c' evs. get n E gens p c \<noteq> Some (Inl CantGlobRead, c', evs) \<and>
                   get n E gens p c \<noteq> Some (Inl GlobInDirectory, c', evs))"
proof -
  let ?w = "walk n E gens False [path_normalize E p] ''*'' [] c"
  have cw: "contents n E gens p False c = ?w"
    using assms(2) by (rule contents_of_directory)
  have 1: "get n E gens p c =
           (case ?w of
              None \<Rightarrow> None
            | Some (Inl err, c', evs) \<Rightarrow> Some (Inl err, c', evs)
            | Some (Inr out, c', evs) \<Rightarrow>
                Some (case out of [] \<Rightarrow> Inr None | [v] \<Rightarrow> Inr (Some v) | _ \<Rightarrow> Inl MatchedMoreThanOne,
                      c', evs))"
  proof (cases ?w)
    case None
    with assms(1) cw show ?thesis by (simp add: get_def)
  next
    case (Some res)
    obtain r c' evs where res: "res = (r, c', evs)" by (cases res)
    show ?thesis
    proof (cases r)
      case (Inl err)
      with assms(1) cw Some res show ?thesis by (simp add: get_def)
    next
      case (Inr out)
      with cw Some res have "contents n E gens p False c = Some (Inr out, c', evs)" by simp
      from get_of_contents[OF assms(1) this] Some res Inr show ?thesis by simp
    qed
  qed
  have 3: "get n E gens p c \<noteq> Some (Inl CantGlobRead, c', evs) \<and>
           get n E gens p c \<noteq> Some (Inl GlobInDirectory, c', evs)" for c' evs
  proof (cases ?w)
    case None
    with 1 show ?thesis by simp
  next
    case (Some res)
    obtain r c1 evs1 where res: "res = (r, c1, evs1)" by (cases res)
    show ?thesis
    proof (cases r)
      case (Inl err)
      with Some res have "\<exists>m. err = External m" by (auto dest: walk_error)
      with 1 Some res Inl show ?thesis by auto
    next
      case (Inr out)
      with 1 Some res show ?thesis by (auto split: list.splits)
    qed
  qed
  from 1 3 get_no_recurse[of n E gens p c] show ?thesis by blast
qed

theorem get_existing_directory_witness:
  "\<not> isGlob site ''site/sub'' \<and> isDir site (Some (path_normalize site ''site/sub'')) \<and>
   result_paths (walk 1 site ([] :: nat registration list) False [path_normalize site ''site/sub''] ''*'' [] Map.empty)
     = Some [''site/sub/post.md'', ''site/sub/data.yaml''] \<and>
   map_option fst (get 1 site ([] :: nat registration list) ''site/sub'' Map.empty) = Some (Inl MatchedMoreThanOne)"
proof -
  have a: "\<not> isGlob site ''site/sub''" "isDir site (Some (path_normalize site ''site/sub''))"
    by (simp_all add: site_def site_dirs_def)
  have w: "result_paths (walk 1 site ([] :: nat registration list) False [path_normalize site ''site/sub''] ''*'' [] Map.empty)
     = Some [''site/sub/post.md'', ''site/sub/data.yaml'']"
    by code_simp
  then obtain out c' evs where
    w': "walk 1 site ([] :: nat registration list) False [path_normalize site ''site/sub''] ''*'' [] Map.empty
         = Some (Inr out, c', evs)" and "map resolved_path out = [''site/sub/post.md'', ''site/sub/data.yaml'']"
    by (auto simp: result_paths_def split: option.splits sum.splits prod.splits)
  then obtain v1 v2 where "out = [v1, v2]" by auto
  with get_existing_directory[OF a, of 1 "[] :: nat registration list" Map.empty] w'
  have "map_option fst (get 1 site ([] :: nat registration list) ''site/sub'' Map.empty) = Some (Inl MatchedMoreThanOne)"
    by simp
  with a w show ?thesis by blast
qed

section \<open>The paths a walk lists\<close>

lemma scan_real_paths:
  "cache_ok c \<Longrightarrow> scan_real E recurse d raws pend out c = (Inr (pend', out'), c', evs) \<Longrightarrow>
     map resolved_path out' = map resolved_path out @ real_paths E d raws \<and>
     pend' = pend @ (if recurse then sub_dirs E d raws else [])"
proof (induction raws arbitrary: pend out c evs c')
  case Nil
  then show ?case by (simp add: real_paths_def sub_dirs_def)
next
  case (Cons raw raws)
  show ?case
  proof (cases "isDir E (Some (path_join E d raw))")
    case True
    from Cons.prems(2) True
    have "scan_real E recurse d raws (if recurse then pend @ [path_join E d raw] else pend) out c
            = (Inr (pend', out'), c', evs)"
      by (simp add: Let_def)
    from Cons.IH[OF Cons.prems(1) this] True show ?thesis
      by (simp add: real_paths_def sub_dirs_def)
  next
    case False
    obtain r1 c1 evs1 where o: "priv_outputFor E (path_join E d raw) None c = (r1, c1, evs1)"
      by (cases "priv_outputFor E (path_join E d raw) None c") auto
    have ok1: "cache_ok c1" using Cons.prems(1) o by (rule outputFor_ok)
    show ?thesis
    proof (cases r1)
      case (Inl err)
      with Cons.prems(2) False o show ?thesis by (simp add: Let_def)
    next
      case (Inr v)
      obtain r2 c2 evs2 where s: "scan_real E recurse d raws pend (out @ [v]) c1 = (r2, c2, evs2)"
        by (cases "scan_real E recurse d raws pend (out @ [v]) c1") auto
      have pv: "resolved_path v = path_join E d raw"
        using Cons.prems(1) o Inr by (auto dest: outputFor_path)
      from Cons.prems(2) False o Inr s have "r2 = Inr (pend', out')" by (simp add: Let_def)
      with s Cons.IH[OF ok1] have
        "map resolved_path out' = map resolved_path (out @ [v]) @ real_paths E d raws \<and>
         pend' = pend @ (if recurse then sub_dirs E d raws else [])"
        by blast
      with pv False show ?thesis by (simp add: real_paths_def sub_dirs_def)
    qed
  qed
qed

lemma scan_virtual_paths:
  "cache_ok c \<Longrightarrow> scan_virtual E d ms out c = (Inr out', c', evs) \<Longrightarrow>
     map resolved_path out' = map resolved_path out @ map (\<lambda>m. path_join E d (vm_name m)) ms"
proof (induction ms arbitrary: out c evs c')
  case Nil
  then show ?case by simp
next
  case (Cons m ms)
  obtain r1 c1 evs1 where o: "priv_outputFor E (path_join E d (vm_name m)) (vm_gen m) c = (r1, c1, evs1)"
    by (cases "priv_outputFor E (path_join E d (vm_name m)) (vm_gen m) c") auto
  have ok1: "cache_ok c1" using Cons.prems(1) o by (rule outputFor_ok)
  show ?case
  proof (cases r1)
    case (Inl err)
    with Cons.prems(2) o show ?thesis by (simp add: Let_def)
  next
    case (Inr v)
    obtain r2 c2 evs2 where s: "scan_virtual E d ms (out @ [v]) c1 = (r2, c2, evs2)"
      by (cases "scan_virtual E d ms (out @ [v]) c1") auto
    have pv: "resolved_path v = path_join E d (vm_name m)"
      using Cons.prems(1) o Inr by (auto dest: outputFor_path)
    from Cons.prems(2) o Inr s have "r2 = Inr out'" by (simp add: Let_def)
    with s Cons.IH[OF ok1] have
      "map resolved_path out' = map resolved_path (out @ [v]) @ map (\<lambda>m. path_join E d (vm_name m)) ms"
      by blast
    with pv show ?thesis by simp
  qed
qed

lemma walk_lists_walk_paths:
  "cache_ok c \<Longrightarrow> held c out \<Longrightarrow> walk n E gens recurse pend g out c = Some (Inr out', c', evs) \<Longrightarrow>
     \<exists>ps. walk_paths n E gens recurse pend g = Some ps \<and>
          map resolved_path out' = map resolved_path out @ ps"
proof (induction n arbitrary: pend g out c evs)
  case 0
  then show ?case by (cases pend) auto
next
  case (Suc n)
  show ?case
  proof (cases pend)
    case Nil
    with Suc.prems show ?thesis by simp
  next
    case (Cons d ds)
    from Suc.prems(3)[unfolded Cons] show ?thesis
    proof (cases rule: walk_Suc_cases)
      case (readdir_failed msg)
      then show ?thesis by simp
    next
      case (real_failed xs err evs1)
      then show ?thesis by simp
    next
      case (virtual_failed xs pend1 out1 c1 evs1 err evs2)
      then show ?thesis by simp
    next
      case (next_turn xs pend1 out1 c1 evs1 out2 c2 evs2 evs3)
      let ?m = "if g = ''*'' then xs else micromatch_match E xs g"
      from scan_real_inv[OF Suc.prems(1,2) next_turn(2)]
      have 1: "cache_ok c1" "held c1 out1" by simp_all
      from scan_virtual_inv[OF this next_turn(3)]
      have 2: "cache_ok c2" "held c2 out2" by simp_all
      from scan_real_paths[OF Suc.prems(1) next_turn(2)]
      have r: "map resolved_path out1 = map resolved_path out @ real_paths E d ?m"
        and p: "pend1 = ds @ (if recurse then sub_dirs E d ?m else [])" by simp_all
      from scan_virtual_paths[OF 1(1) next_turn(3)]
      have v: "map resolved_path out2 = map resolved_path out1 @ virtual_paths E gens d g"
        by (simp add: virtual_paths_def)
      from Suc.IH[OF 2 next_turn(4)] obtain ps where
        ps: "walk_paths n E gens recurse pend1 ''*'' = Some ps"
        and m: "map resolved_path out' = map resolved_path out2 @ ps" by blast
      from next_turn(1) p ps
      have "walk_paths (Suc n) E gens recurse (d # ds) g =
              Some (real_paths E d ?m @ virtual_paths E gens d g @ ps)"
        by (simp add: Let_def)
      with r v m Cons show ?thesis by simp
    qed
  qed
qed

lemma contents_lists_contents_paths:
  assumes "cache_ok c" and "contents n E gens req recurse c = Some (Inr out, c', evs)"
  shows "contents_paths n E gens req recurse = Some (map resolved_path out)"
proof -
  let ?req = "path_normalize E req"
  let ?root = "if isDir E (Some ?req) then ?req else path_dirname E ?req"
  let ?g = "if isDir E (Some ?req) then ''*'' else path_basename E ?req"
  from assms(2) have pc: "priv_contents n E gens ?root ?g recurse c = Some (Inr out, c', evs)"
    by (auto simp: contents_def Let_def split: if_splits)
  show ?thesis
  proof (cases "isDir E (Some ?root)")
    case False
    with pc have "out = []" by (simp add: priv_contents_def)
    with False show ?thesis by (simp add: contents_paths_def Let_def)
  next
    case True
    with pc have "walk n E gens recurse [?root] ?g [] c = Some (Inr out, c', evs)"
      by (simp add: priv_contents_def)
    from walk_lists_walk_paths[OF assms(1) held_Nil this]
    have "walk_paths n E gens recurse [?root] ?g = Some (map resolved_path out)" by simp
    with True show ?thesis by (simp add: contents_paths_def Let_def)
  qed
qed

section \<open>One cache entry per path\<close>

text \<open>
  Claim C1 says that a path appears at most once in the list \<^verbatim>\<open>contents\<close> returns.
  The directory \<^verbatim>\<open>site\<close> holds a real file \<^verbatim>\<open>index.html\<close>, and a generator is
  registered for \<^verbatim>\<open>index.html\<close> in \<^verbatim>\<open>site\<close>: both loops of \<^verbatim>\<open>_contents\<close> push the
  entry of \<^verbatim>\<open>site/index.html\<close>, so the path is listed twice.
\<close>

theorem contents_lists_a_path_twice:
  "result_paths
     (contents 1 site [\<lparr> reg_dir = ''site'', reg_name = ''index.html'', reg_gen = Some (7 :: nat) \<rparr>]
        ''site'' False Map.empty)
   = Some [''site/index.html'', ''site/notes.txt'', ''site/index.html'']"
  by code_simp

text \<open>
  Claim C1, amended. When the cache is well formed at the start (as the empty cache
  of a new loader is) and \<^verbatim>\<open>contents\<close> returns a list, the paths of the list are
  exactly the paths of the walk in its order (\<open>contents_paths\<close>): for every
  directory visited, one for each matched entry that is no directory and then one
  for each virtual match. So a path is listed as often as real entries and virtual
  matches produce it, and at most once when they produce no path twice. Every
  element of the list is what the cache gives for its path after the call (the
  entry stored for it; for a path that is the name of a member of
  \<^verbatim>\<open>Object.prototype\<close>, that member), hence two elements for the same path are
  identical: a path has one record, however often it is listed.
\<close>

theorem contents_entries_are_cache_entries:
  assumes "cache_ok c" and "contents n E gens req recurse c = Some (Inr out, c', evs)"
  shows "contents_paths n E gens req recurse = Some (map resolved_path out) \<and>
         (\<forall>ps. contents_paths n E gens req recurse = Some ps \<longrightarrow>
            (\<forall>p. count_list (map resolved_path out) p = count_list ps p) \<and>
            (distinct ps \<longrightarrow> distinct (map resolved_path out))) \<and>
         (\<forall>x \<in> set out. cache_lookup c' (resolved_path x) = Some x) \<and>
         (\<forall>x \<in> set out. \<forall>y \<in> set out. resolved_path x = resolved_path y \<longrightarrow> x = y)"
proof -
  have 0: "contents_paths n E gens req recurse = Some (map resolved_path out)"
    using assms by (rule contents_lists_contents_paths)
  from contents_inv[OF assms] have h: "held c' out" by simp
  then have 1: "\<forall>x \<in> set out. cache_lookup c' (resolved_path x) = Some x" by (simp add: held_def)
  have "x = y" if "x \<in> set out" "y \<in> set out" "resolved_path x = resolved_path y" for x y
  proof -
    from 1 that(1) have "cache_lookup c' (resolved_path x) = Some x" by blast
    moreover from 1 that(2) have "cache_lookup c' (resolved_path y) = Some y" by blast
    ultimately show ?thesis using that(3) by (metis option.inject)
  qed
  with 0 1 show ?thesis by simp
qed

lemma cache_ok_empty: "cache_ok Map.empty"
  by (simp add: cache_ok_def)

theorem contents_entries_are_cache_entries_witness:
  "cache_ok (Map.empty :: (nat, string) cache) \<and>
   contents_paths 1 site [\<lparr> reg_dir = ''site'', reg_name = ''index.html'', reg_gen = Some (7 :: nat) \<rparr>]
       ''site'' False = Some [''site/index.html'', ''site/notes.txt'', ''site/index.html''] \<and>
   (case contents 1 site [\<lparr> reg_dir = ''site'', reg_name = ''index.html'', reg_gen = Some (7 :: nat) \<rparr>]
           ''site'' False Map.empty of
      Some (Inr out, c', evs) \<Rightarrow>
        map resolved_path out = [''site/index.html'', ''site/notes.txt'', ''site/index.html''] \<and>
        list_all (\<lambda>x. cache_lookup c' (resolved_path x) = Some x) out \<and> out ! 0 = out ! 2
    | _ \<Rightarrow> False) \<and>
   contents_paths 2 site ([] :: nat registration list) ''site'' True =
     Some [''site/index.html'', ''site/notes.txt'', ''site/sub/post.md'', ''site/sub/data.yaml''] \<and>
   result_paths (contents 2 site ([] :: nat registration list) ''site'' True Map.empty) =
     Some [''site/index.html'', ''site/notes.txt'', ''site/sub/post.md'', ''site/sub/data.yaml'']"
proof -
  let ?gens = "[\<lparr> reg_dir = ''site'', reg_name = ''index.html'', reg_gen = Some (7 :: nat) \<rparr>]"
  let ?r = "contents 1 site ?gens ''site'' False Map.empty"
  have "result_paths ?r = Some [''site/index.html'', ''site/notes.txt'', ''site/index.html'']"
    by code_simp
  then obtain out c' evs where r: "?r = Some (Inr out, c', evs)"
    and p: "map resolved_path out = [''site/index.html'', ''site/notes.txt'', ''site/index.html'']"
    by (auto simp: result_paths_def split: option.splits sum.splits prod.splits)
  from p obtain v0 v1 v2 where o: "out = [v0, v1, v2]" by auto
  from contents_entries_are_cache_entries[OF cache_ok_empty r]
  have l: "contents_paths 1 site ?gens ''site'' False = Some (map resolved_path out)"
    and a: "\<forall>x \<in> set out. cache_lookup c' (resolved_path x) = Some x"
    and b: "\<forall>x \<in> set out. \<forall>y \<in> set out. resolved_path x = resolved_path y \<longrightarrow> x = y" by blast+
  from p o have "resolved_path v0 = resolved_path v2" by simp
  moreover from o have "v0 \<in> set out" "v2 \<in> set out" by simp_all
  ultimately have "v0 = v2" using b by blast
  with o have e02: "out ! 0 = out ! 2" by simp
  from a have la: "list_all (\<lambda>x. cache_lookup c' (resolved_path x) = Some x) out"
    by (simp add: list_all_iff)
  have first: "case ?r of
      Some (Inr out, c', evs) \<Rightarrow>
        map resolved_path out = [''site/index.html'', ''site/notes.txt'', ''site/index.html''] \<and>
        list_all (\<lambda>x. cache_lookup c' (resolved_path x) = Some x) out \<and> out ! 0 = out ! 2
    | _ \<Rightarrow> False"
    by (simp only: r option.case prod.case sum.case p la e02 simp_thms)
  from l p have l': "contents_paths 1 site ?gens ''site'' False =
      Some [''site/index.html'', ''site/notes.txt'', ''site/index.html'']" by simp
  have rec1: "contents_paths 2 site ([] :: nat registration list) ''site'' True =
     Some [''site/index.html'', ''site/notes.txt'', ''site/sub/post.md'', ''site/sub/data.yaml'']"
    by code_simp
  have rec2: "result_paths (contents 2 site ([] :: nat registration list) ''site'' True Map.empty) =
     Some [''site/index.html'', ''site/notes.txt'', ''site/sub/post.md'', ''site/sub/data.yaml'']"
    by code_simp
  from cache_ok_empty l' first rec1 rec2 show ?thesis by blast
qed

section \<open>The cache is written once\<close>



section \<open>Records built from a source file\<close>

lemma read_resolved:
  "content f = Str s \<Longrightarrow> read E f = (Inr (Str s), f, [])"
  by (simp add: read_def)

lemma read_times_resolved:
  "content f = Str s \<Longrightarrow> read_times k E f = (replicate k (Inr (Str s)), f, [])"
  by (induction k) (simp_all add: read_resolved)

text \<open>
  Claim C9. For a Markdown source (extension \<^verbatim>\<open>.md\<close>) whose text the front-matter
  splitter \<^verbatim>\<open>yamlPrefix\<close> divides into a configuration and a rest, the record built
  has that configuration as \<^verbatim>\<open>config\<close> and that rest as \<^verbatim>\<open>content\<close>; building it reads
  the file once and splits it once, and any number of \<^verbatim>\<open>read()\<close> calls afterwards
  return the rest, change nothing and call neither storage nor parser. For a
  YAML source (extension \<^verbatim>\<open>.yaml\<close>) \<^verbatim>\<open>config\<close> is \<^verbatim>\<open>YAML.parse\<close> of the whole text and
  \<^verbatim>\<open>content\<close> is the text as read, again with one read and one parse.
\<close>

theorem buildFromSource_markdown_yaml:
  "(path_extname E p = ''.md'' \<and> fsp_readFile E (Some p) = Inr src \<and>
    yamlPrefix E src = Inr (rest, cfg) \<longrightarrow>
      (\<exists>f. buildFromSource E p = (Inr f, [ReadFile (Some p), YamlPrefix src]) \<and>
           config f = cfg \<and> content f = Str rest \<and>
           (\<forall>k. read_times k E f = (replicate k (Inr (Str rest)), f, [])))) \<and>
   (path_extname E p = ''.yaml'' \<and> fsp_readFile E (Some p) = Inr src \<and>
    YAML_parse E src = Inr cfg \<longrightarrow>
      (\<exists>f. buildFromSource E p = (Inr f, [ReadFile (Some p), YamlParse src]) \<and>
           config f = cfg \<and> content f = Str src \<and>
           (\<forall>k. read_times k E f = (replicate k (Inr (Str src)), f, []))))"
proof -
  have md: "\<exists>f. buildFromSource E p = (Inr f, [ReadFile (Some p), YamlPrefix src]) \<and>
           config f = cfg \<and> content f = Str rest \<and>
           (\<forall>k. read_times k E f = (replicate k (Inr (Str rest)), f, []))"
    if "path_extname E p = ''.md''" "fsp_readFile E (Some p) = Inr src"
       "yamlPrefix E src = Inr (rest, cfg)"
  proof -
    let ?f = "new_ContentFile E p cfg (Str rest)"
    have "buildFromSource E p = (Inr ?f, [ReadFile (Some p), YamlPrefix src])"
      using that by (simp add: buildFromSource_def alwaysReadSource_def)
    moreover have c: "content ?f = Str rest" and "config ?f = cfg"
      by (simp_all add: new_ContentFile_def Let_def)
    moreover have "\<forall>k. read_times k E ?f = (replicate k (Inr (Str rest)), ?f, [])"
      using read_times_resolved[OF c] by blast
    ultimately show ?thesis by blast
  qed
  have yaml: "\<exists>f. buildFromSource E p = (Inr f, [ReadFile (Some p), YamlParse src]) \<and>
           config f = cfg \<and> content f = Str src \<and>
           (\<forall>k. read_times k E f = (replicate k (Inr (Str src)), f, []))"
    if "path_extname E p = ''.yaml''" "fsp_readFile E (Some p) = Inr src"
       "YAML_parse E src = Inr cfg"
  proof -
    let ?f = "new_ContentFile E p cfg (Str src)"
    have "buildFromSource E p = (Inr ?f, [ReadFile (Some p), YamlParse src])"
      using that by (simp add: buildFromSource_def alwaysReadSource_def)
    moreover have c: "content ?f = Str src" and "config ?f = cfg"
      by (simp_all add: new_ContentFile_def Let_def)
    moreover have "\<forall>k. read_times k E ?f = (replicate k (Inr (Str src)), ?f, [])"
      using read_times_resolved[OF c] by blast
    ultimately show ?thesis by blast
  qed
  from md yaml show ?thesis by blast
qed

theorem buildFromSource_markdown_yaml_witness:
  "path_extname site ''site/sub/post.md'' = ''.md'' \<and>
   fsp_readFile site (Some ''site/sub/post.md'') = Inr ''[title]body'' \<and>
   yamlPrefix site ''[title]body'' = Inr (''body'', Some ''title'') \<and>
   (case buildFromSource site ''site/sub/post.md'' of
      (r, evs) \<Rightarrow>
        evs = [ReadFile (Some ''site/sub/post.md''), YamlPrefix ''[title]body''] \<and>
        map_sum id config r = Inr (Some ''title'') \<and> map_sum id content r = Inr (Str ''body'') \<and>
        map_sum id (\<lambda>f. read_times 3 site f) r =
          map_sum id (\<lambda>f. ([Inr (Str ''body''), Inr (Str ''body''), Inr (Str ''body'')], f, [])) r) \<and>
   path_extname site ''site/sub/data.yaml'' = ''.yaml'' \<and>
   fsp_readFile site (Some ''site/sub/data.yaml'') = Inr ''k: v'' \<and>
   YAML_parse site ''k: v'' = Inr (Some ''parsed k: v'') \<and>
   (case buildFromSource site ''site/sub/data.yaml'' of
      (r, evs) \<Rightarrow>
        evs = [ReadFile (Some ''site/sub/data.yaml''), YamlParse ''k: v''] \<and>
        map_sum id config r = Inr (Some ''parsed k: v'') \<and> map_sum id content r = Inr (Str ''k: v'') \<and>
        map_sum id (\<lambda>f. read_times 2 site f) r =
          map_sum id (\<lambda>f. ([Inr (Str ''k: v''), Inr (Str ''k: v'')], f, [])) r)"
proof -
  have h: "path_extname site ''site/sub/post.md'' = ''.md''"
    "fsp_readFile site (Some ''site/sub/post.md'') = Inr ''[title]body''"
    "yamlPrefix site ''[title]body'' = Inr (''body'', Some ''title'')"
    by (simp_all add: site_def site_files_def suffix_from_last_dot_def after_last_slash_def)
  with buildFromSource_markdown_yaml[of site "''site/sub/post.md''" "''[title]body''" "''body''" "Some ''title''"]
  obtain f where f: "buildFromSource site ''site/sub/post.md'' =
        (Inr f, [ReadFile (Some ''site/sub/post.md''), YamlPrefix ''[title]body''])"
    "config f = Some ''title''" "content f = Str ''body''"
    "\<forall>k. read_times k site f = (replicate k (Inr (Str ''body'')), f, [])"
    by blast
  from f(4) have "read_times 3 site f = (replicate 3 (Inr (Str ''body'')), f, [])" by blast
  then have "read_times 3 site f = ([Inr (Str ''body''), Inr (Str ''body''), Inr (Str ''body'')], f, [])"
    by (simp only: numeral_3_eq_3 replicate.simps)
  with f(1,2,3) have md: "case buildFromSource site ''site/sub/post.md'' of
      (r, evs) \<Rightarrow>
        evs = [ReadFile (Some ''site/sub/post.md''), YamlPrefix ''[title]body''] \<and>
        map_sum id config r = Inr (Some ''title'') \<and> map_sum id content r = Inr (Str ''body'') \<and>
        map_sum id (\<lambda>f. read_times 3 site f) r =
          map_sum id (\<lambda>f. ([Inr (Str ''body''), Inr (Str ''body''), Inr (Str ''body'')], f, [])) r"
    by (simp only: prod.case map_sum.simps id_apply simp_thms)
  have y: "path_extname site ''site/sub/data.yaml'' = ''.yaml''"
    "fsp_readFile site (Some ''site/sub/data.yaml'') = Inr ''k: v''"
    "YAML_parse site ''k: v'' = Inr (Some ''parsed k: v'')"
    by (simp_all add: site_def site_files_def suffix_from_last_dot_def after_last_slash_def)
  with buildFromSource_markdown_yaml[where E = site and p = "''site/sub/data.yaml''" and src = "''k: v''"
      and cfg = "Some ''parsed k: v''"]
  obtain g where g: "buildFromSource site ''site/sub/data.yaml'' =
        (Inr g, [ReadFile (Some ''site/sub/data.yaml''), YamlParse ''k: v''])"
    "config g = Some ''parsed k: v''" "content g = Str ''k: v''"
    "\<forall>k. read_times k site g = (replicate k (Inr (Str ''k: v'')), g, [])"
    by blast
  from g(4) have "read_times 2 site g = (replicate 2 (Inr (Str ''k: v'')), g, [])" by blast
  then have "read_times 2 site g = ([Inr (Str ''k: v''), Inr (Str ''k: v'')], g, [])"
    by (simp only: numeral_2_eq_2 replicate.simps)
  with g(1,2,3) have yaml: "case buildFromSource site ''site/sub/data.yaml'' of
      (r, evs) \<Rightarrow>
        evs = [ReadFile (Some ''site/sub/data.yaml''), YamlParse ''k: v''] \<and>
        map_sum id config r = Inr (Some ''parsed k: v'') \<and> map_sum id content r = Inr (Str ''k: v'') \<and>
        map_sum id (\<lambda>f. read_times 2 site f) r =
          map_sum id (\<lambda>f. ([Inr (Str ''k: v''), Inr (Str ''k: v'')], f, [])) r"
    by (simp only: prod.case map_sum.simps id_apply simp_thms)
  from h md y yaml show ?thesis by blast
qed

section \<open>Lazy content\<close>

lemma buildFromSource_lazy:
  "path_extname E p \<notin> set alwaysReadSource \<Longrightarrow>
     buildFromSource E p = (Inr (new_ContentFile E p None Undefined), []) \<and>
     content (new_ContentFile E p None Undefined) = Null \<and>
     read E (new_ContentFile E p None Undefined) = (Inr Null, new_ContentFile E p None Undefined, [])"
  by (simp add: buildFromSource_def new_ContentFile_def read_def Let_def)

lemma new_ContentFile_never_unread: "content (new_ContentFile E p cfg x) \<noteq> Undefined"
  by (simp add: new_ContentFile_def Let_def)

text \<open>
  The constructor never leaves \<^verbatim>\<open>content\<close> at \<^verbatim>\<open>undefined\<close> (lemma
  \<open>new_ContentFile_never_unread\<close>): \<^verbatim>\<open>_buildFromSource\<close> passes \<^verbatim>\<open>undefined\<close> for a source
  outside \<^verbatim>\<open>alwaysReadSource\<close>, and the default parameter value turns it into \<^verbatim>\<open>null\<close>.

  Claim C3 says that the record built from a real source file with an extension
  outside the always-eager set starts with its content unread, and that the body
  is fetched on the first \<^verbatim>\<open>read()\<close>. The code does otherwise: the file
  \<^verbatim>\<open>site/notes.txt\<close> holds \<^verbatim>\<open>hello\<close>, the record built for it has the content \<^verbatim>\<open>null\<close>,
  and \<^verbatim>\<open>read()\<close> on it returns \<^verbatim>\<open>null\<close> and reads nothing.
\<close>

theorem buildFromSource_lazy_content_is_null:
  "fsp_readFile site (Some ''site/notes.txt'') = Inr ''hello'' \<and>
   buildFromSource site ''site/notes.txt'' =
     (Inr \<lparr> config = None, content = Null, ext = ''.txt'', dir = ''site'', base = ''notes.txt'' \<rparr>, []) \<and>
   read site \<lparr> config = None, content = Null, ext = ''.txt'', dir = ''site'', base = ''notes.txt'' \<rparr> =
     (Inr Null, \<lparr> config = None, content = Null, ext = ''.txt'', dir = ''site'', base = ''notes.txt'' \<rparr>, [])"
  by (simp add: buildFromSource_def new_ContentFile_def read_def site_def site_files_def Let_def
      alwaysReadSource_def suffix_from_last_dot_def after_last_slash_def before_last_slash_def)

lemma read_unread:
  "content f = Undefined \<Longrightarrow>
     read E f =
       (if isDir E None then (Inr Null, f\<lparr>content := Null\<rparr>, [])
        else (settle (Promise (fsp_readFile E None)),
              f\<lparr>content := Promise (fsp_readFile E None)\<rparr>, [ReadFile None]))"
  by (simp add: read_def this_path_def Let_def)

text \<open>
  Claim C4 says that \<^verbatim>\<open>read()\<close> on an unread record returns \<^verbatim>\<open>null\<close> when the record's
  path is a directory and otherwise reads the file at the record's path once. The
  code passes \<^verbatim>\<open>this.path\<close>, which is \<^verbatim>\<open>undefined\<close>, to \<^verbatim>\<open>isDir\<close> and to \<^verbatim>\<open>fsp.readFile\<close>
  (lemma \<open>read_unread\<close>), so the record's own path plays no part: the unread record
  of the file \<^verbatim>\<open>site/notes.txt\<close> (which holds \<^verbatim>\<open>hello\<close>) and the unread record of the
  directory \<^verbatim>\<open>site/sub\<close> both try to read \<^verbatim>\<open>undefined\<close>, and both calls fail.
\<close>

theorem read_unread_never_reads_the_record_path:
  "fsp_readFile site (Some ''site/notes.txt'') = Inr ''hello'' \<and>
   read site \<lparr> config = None, content = Undefined, ext = ''.txt'', dir = ''site'', base = ''notes.txt'' \<rparr> =
     (Inl (External ''ERR_INVALID_ARG_TYPE''),
      \<lparr> config = None, content = Promise (Inl ''ERR_INVALID_ARG_TYPE''), ext = ''.txt'', dir = ''site'',
        base = ''notes.txt'' \<rparr>,
      [ReadFile None]) \<and>
   isDir site (Some ''site/sub'') \<and>
   read site \<lparr> config = None, content = Undefined, ext = '''', dir = ''site'', base = ''sub'' \<rparr> =
     (Inl (External ''ERR_INVALID_ARG_TYPE''),
      \<lparr> config = None, content = Promise (Inl ''ERR_INVALID_ARG_TYPE''), ext = '''', dir = ''site'',
        base = ''sub'' \<rparr>,
      [ReadFile None])"
  by (simp add: read_def this_path_def site_def site_files_def site_dirs_def)

section \<open>Virtual matches\<close>

lemma virtual_one_concrete_name:
  "micromatch_isMatch E candidateDir (reg_dir r) \<Longrightarrow> \<not> isGlob E (reg_name r) \<Longrightarrow>
   \<not> micromatch_isMatch E ''*'' (reg_name r) \<Longrightarrow>
     virtual_one E candidateDir ''*'' r = Some \<lparr> vm_name = reg_name r, vm_gen = reg_gen r \<rparr>"
  by (simp add: virtual_one_def)

lemma virtual_one_explicit_request:
  "micromatch_isMatch E candidateDir (reg_dir r) \<Longrightarrow> micromatch_isMatch E candidateName (reg_name r) \<Longrightarrow>
     virtual_one E candidateDir candidateName r = Some \<lparr> vm_name = candidateName, vm_gen = reg_gen r \<rparr>"
  by (simp add: virtual_one_def)

lemma virtual_one_glob_name_broad:
  "isGlob E (reg_name r) \<Longrightarrow> \<not> micromatch_isMatch E ''*'' (reg_name r) \<Longrightarrow>
     virtual_one E candidateDir ''*'' r = None"
  by (simp add: virtual_one_def)

lemma virtual_examples:
  "priv_virtual site
     [\<lparr> reg_dir = ''pages/*'', reg_name = ''index.html'', reg_gen = Some (1 :: nat) \<rparr>,
      \<lparr> reg_dir = ''pages/*'', reg_name = ''draft-*.md'', reg_gen = Some 2 \<rparr>] ''pages/foo'' ''*''
     = [\<lparr> vm_name = ''index.html'', vm_gen = Some 1 \<rparr>] \<and>
   priv_virtual site
     [\<lparr> reg_dir = ''pages/*'', reg_name = ''index.html'', reg_gen = Some (1 :: nat) \<rparr>,
      \<lparr> reg_dir = ''pages/*'', reg_name = ''draft-*.md'', reg_gen = Some 2 \<rparr>] ''pages/foo'' ''draft-1.md''
     = [\<lparr> vm_name = ''draft-1.md'', vm_gen = Some 2 \<rparr>]"
  by code_simp

text \<open>
  Claim C5 says that a registration whose name is a glob is never offered for a
  broad listing (candidate pattern \<^verbatim>\<open>*\<close>). The first test of \<^verbatim>\<open>_virtual\<close> after the
  directory matches the candidate pattern against the registered name whatever the
  candidate is, and the string \<^verbatim>\<open>*\<close> matches the glob \<^verbatim>\<open>*\<close>: the registration with
  the name \<^verbatim>\<open>*\<close> is offered for a broad listing, as a file named \<^verbatim>\<open>*\<close>. The other two
  parts of the claim hold (lemmas \<open>virtual_one_concrete_name\<close> and
  \<open>virtual_one_explicit_request\<close>; \<open>virtual_examples\<close> runs the example of the
  specification).
\<close>

theorem virtual_offers_glob_name_on_broad_listing:
  "isGlob site ''*'' \<and>
   priv_virtual site [\<lparr> reg_dir = ''pages/*'', reg_name = ''*'', reg_gen = Some (1 :: nat) \<rparr>]
     ''pages/foo'' ''*'' = [\<lparr> vm_name = ''*'', vm_gen = Some 1 \<rparr>]"
  by (simp add: priv_virtual_def virtual_one_def site_def)

text \<open>
  Claim C6 says that the direct-match branch of \<^verbatim>\<open>_virtual\<close> (the candidate name
  tested against the registered name glob, the candidate itself returned as the
  name) is taken only for a candidate that is not a glob. The branch has no such
  test: for the glob-shaped candidate \<^verbatim>\<open>*.md\<close> and the registered name \<^verbatim>\<open>*\<close> it is
  taken, and the match is named \<^verbatim>\<open>*.md\<close>.
\<close>

theorem virtual_direct_match_of_glob_candidate:
  "isGlob site ''*.md'' \<and>
   virtual_one site ''pages/foo'' ''*.md'' \<lparr> reg_dir = ''pages/*'', reg_name = ''*'', reg_gen = Some (1 :: nat) \<rparr>
     = Some \<lparr> vm_name = ''*.md'', vm_gen = Some 1 \<rparr>"
  by (simp add: virtual_one_def site_def)

end
